theory Spec2Isabelle
  imports Main "HOL-Library.Word" "HOL-Library.Multiset" "HOL-Library.Product_Lexorder"
begin

section \<open>JavaScript strings\<close>

text \<open>
  A JavaScript string is a sequence of UTF-16 code units; \<open>length\<close>, \<open>split("")\<close>,
  \<open>charCodeAt\<close>, \<open>indexOf\<close> and \<open>includes\<close> all count code units.
\<close>

type_synonym code_unit = "16 word"
type_synonym jsstring = "code_unit list"

text \<open>A Basic Latin literal as a JavaScript string.\<close>

definition js :: "string \<Rightarrow> jsstring" where
  "js s = map (\<lambda>c. of_nat (of_char c)) s"

definition isAscii :: "code_unit \<Rightarrow> bool" where
  "isAscii c = (c < 0x80)"

definition isAsciiLetter :: "code_unit \<Rightarrow> bool" where
  "isAsciiLetter c = ((0x41 \<le> c \<and> c \<le> 0x5A) \<or> (0x61 \<le> c \<and> c \<le> 0x7A))"

definition asciiUpper :: "code_unit \<Rightarrow> code_unit" where
  "asciiUpper c = (if 0x61 \<le> c \<and> c \<le> 0x7A then c - 0x20 else c)"

definition asciiLower :: "code_unit \<Rightarrow> code_unit" where
  "asciiLower c = (if 0x41 \<le> c \<and> c \<le> 0x5A then c + 0x20 else c)"

text \<open>
  \<open>String.prototype.toUpperCase\<close> and \<open>toLowerCase\<close> apply the Unicode default case
  conversion. On a string of Basic Latin code units that is the letter-wise map above.
  What the Unicode tables do to any other string (the result may even differ in length:
  U+00DF becomes \<open>SS\<close>) is left to the parameter \<open>U\<close>, so a theorem stated for every
  \<open>U\<close> holds whatever those tables contain.
\<close>

record casing =
  upperOf :: "jsstring \<Rightarrow> jsstring"
  lowerOf :: "jsstring \<Rightarrow> jsstring"

definition toUpperCase :: "casing \<Rightarrow> jsstring \<Rightarrow> jsstring" where
  "toUpperCase U s = (if list_all isAscii s then map asciiUpper s else upperOf U s)"

definition toLowerCase :: "casing \<Rightarrow> jsstring \<Rightarrow> jsstring" where
  "toLowerCase U s = (if list_all isAscii s then map asciiLower s else lowerOf U s)"

text \<open>
  A fragment of the Unicode tables for evaluating the functions on concrete strings: it
  is right on strings over Basic Latin and U+212A KELVIN SIGN, an uppercase letter whose
  lowercase mapping is U+006B (\<open>k\<close>) and which \<open>toUpperCase\<close> leaves as it is.
\<close>

definition kelvinCasing :: casing where
  "kelvinCasing =
     \<lparr>upperOf = map asciiUpper,
      lowerOf = map (\<lambda>c. if c = 0x212A then 0x6B else asciiLower c)\<rparr>"

text \<open>
  \<open>String.prototype.indexOf(q)\<close>: the least position at which \<open>q\<close> occurs in the
  string, \<open>-1\<close> when there is none. \<open>includes\<close> is defined by ECMAScript as
  \<open>indexOf\<close> not being \<open>-1\<close>.
\<close>

fun indexOfFrom :: "jsstring \<Rightarrow> jsstring \<Rightarrow> nat \<Rightarrow> int" where
  "indexOfFrom q [] k = (if q = [] then int k else - 1)"
| "indexOfFrom q (c # cs) k =
     (if take (length q) (c # cs) = q then int k else indexOfFrom q cs (Suc k))"

definition indexOf :: "jsstring \<Rightarrow> jsstring \<Rightarrow> int" where
  "indexOf s q = indexOfFrom q s 0"

definition includes_str :: "jsstring \<Rightarrow> jsstring \<Rightarrow> bool" where
  "includes_str s q = (indexOf s q \<noteq> - 1)"

text \<open>
  \<open>String.fromCodePoint\<close>: a code point up to \<open>0xFFFF\<close> is one code unit, a code point
  up to \<open>0x10FFFF\<close> is a surrogate pair, anything larger raises \<open>RangeError\<close>.
\<close>

datatype js_error = RangeError

definition codePointUnits :: "nat \<Rightarrow> js_error + jsstring" where
  "codePointUnits cp =
     (if cp > 0x10FFFF then Inl RangeError
      else if cp < 0x10000 then Inr [of_nat cp]
      else Inr [of_nat (0xD800 + (cp - 0x10000) div 0x400),
                of_nat (0xDC00 + (cp - 0x10000) mod 0x400)])"

fun fromCodePoint :: "nat list \<Rightarrow> js_error + jsstring" where
  "fromCodePoint [] = Inr []"
| "fromCodePoint (cp # cps) =
     (case codePointUnits cp of
        Inl e \<Rightarrow> Inl e
      | Inr u \<Rightarrow> (case fromCodePoint cps of Inl e \<Rightarrow> Inl e | Inr us \<Rightarrow> Inr (u @ us)))"

text \<open>
  \<open>Array.prototype.sort(comparefn)\<close> is stable (ECMAScript 2019): elements that compare
  equal keep their order. For a consistent comparator the result is determined by that;
  it is computed here by insertion from the right.
\<close>

fun insertBy :: "('a \<Rightarrow> 'a \<Rightarrow> int) \<Rightarrow> 'a \<Rightarrow> 'a list \<Rightarrow> 'a list" where
  "insertBy cmp x [] = [x]"
| "insertBy cmp x (y # ys) =
     (if cmp x y \<le> 0 then x # y # ys else y # insertBy cmp x ys)"

definition sortBy :: "('a \<Rightarrow> 'a \<Rightarrow> int) \<Rightarrow> 'a list \<Rightarrow> 'a list" where
  "sortBy cmp xs = foldr (insertBy cmp) xs []"

section \<open>utils.ts\<close>

definition getFlagEmoji :: "casing \<Rightarrow> jsstring \<Rightarrow> js_error + jsstring" where
  "getFlagEmoji U alpha2' =
     (let codePoint = map (\<lambda>char. 127397 + unat char) (toUpperCase U alpha2')
      in fromCodePoint codePoint)"

section \<open>types.ts and database.ts\<close>

record BaseCountryData =
  name :: jsstring
  alpha2 :: jsstring
  alpha3 :: jsstring
  numeric :: jsstring

record Country = BaseCountryData +
  flag :: jsstring

text \<open>
  \<open>countries\<close> is built when the module is loaded; an exception in \<open>getFlagEmoji\<close>
  would abort the load. The rows \<open>rawCountries\<close> (raw-data.ts) are a parameter.
\<close>

fun countries :: "casing \<Rightarrow> BaseCountryData list \<Rightarrow> js_error + Country list" where
  "countries U [] = Inr []"
| "countries U (d # ds) =
     (case getFlagEmoji U (alpha2 d) of
        Inl e \<Rightarrow> Inl e
      | Inr f \<Rightarrow>
          (case countries U ds of
             Inl e \<Rightarrow> Inl e
           | Inr cs \<Rightarrow>
               Inr (\<lparr>name = name d, alpha2 = alpha2 d, alpha3 = alpha3 d,
                     numeric = numeric d, flag = f\<rparr> # cs)))"

section \<open>index.ts\<close>

text \<open>
  The functions of index.ts read the imported array \<open>countries\<close>, here the argument
  \<open>cs\<close>. The three \<open>Map\<close>s are filled by one pass over it.
\<close>

record SearchEntry =
  original :: Country
  lowerName :: jsstring

record Indexes =
  alpha2Map :: "jsstring \<rightharpoonup> Country"
  alpha3Map :: "jsstring \<rightharpoonup> Country"
  numericMap :: "jsstring \<rightharpoonup> Country"

definition searchIndex :: "casing \<Rightarrow> Country list \<Rightarrow> SearchEntry list" where
  "searchIndex U cs =
     map (\<lambda>country. \<lparr>original = country, lowerName = toLowerCase U (name country)\<rparr>) cs"

definition setCountry :: "Country \<Rightarrow> Indexes \<Rightarrow> Indexes" where
  "setCountry country ix =
     \<lparr>alpha2Map = (alpha2Map ix)(alpha2 country \<mapsto> country),
      alpha3Map = (alpha3Map ix)(alpha3 country \<mapsto> country),
      numericMap = (numericMap ix)(numeric country \<mapsto> country)\<rparr>"

definition indexes :: "Country list \<Rightarrow> Indexes" where
  "indexes cs =
     fold setCountry cs
       \<lparr>alpha2Map = Map.empty, alpha3Map = Map.empty, numericMap = Map.empty\<rparr>"

definition getCountryByAlpha2 :: "casing \<Rightarrow> Country list \<Rightarrow> jsstring \<Rightarrow> Country option" where
  "getCountryByAlpha2 U cs code = alpha2Map (indexes cs) (toUpperCase U code)"

definition getCountryByAlpha3 :: "casing \<Rightarrow> Country list \<Rightarrow> jsstring \<Rightarrow> Country option" where
  "getCountryByAlpha3 U cs code = alpha3Map (indexes cs) (toUpperCase U code)"

definition getCountryByNumeric :: "Country list \<Rightarrow> jsstring \<Rightarrow> Country option" where
  "getCountryByNumeric cs code = numericMap (indexes cs) code"

definition getEmojiByAlpha2 :: "casing \<Rightarrow> Country list \<Rightarrow> jsstring \<Rightarrow> jsstring option" where
  "getEmojiByAlpha2 U cs code =
     (case getCountryByAlpha2 U cs code of None \<Rightarrow> None | Some country \<Rightarrow> Some (flag country))"

definition getEmojiByAlpha3 :: "casing \<Rightarrow> Country list \<Rightarrow> jsstring \<Rightarrow> jsstring option" where
  "getEmojiByAlpha3 U cs code =
     (case getCountryByAlpha3 U cs code of None \<Rightarrow> None | Some country \<Rightarrow> Some (flag country))"

definition getEmojiByNumeric :: "Country list \<Rightarrow> jsstring \<Rightarrow> jsstring option" where
  "getEmojiByNumeric cs code =
     (case getCountryByNumeric cs code of None \<Rightarrow> None | Some country \<Rightarrow> Some (flag country))"

definition getCountryByName :: "casing \<Rightarrow> Country list \<Rightarrow> jsstring \<Rightarrow> Country option" where
  "getCountryByName U cs nm =
     (if nm = [] then None
      else find (\<lambda>country. toLowerCase U (name country) = toLowerCase U nm) cs)"

definition compareEntries :: "jsstring \<Rightarrow> SearchEntry \<Rightarrow> SearchEntry \<Rightarrow> int" where
  "compareEntries query a b =
     (let indexA = indexOf (lowerName a) query;
          indexB = indexOf (lowerName b) query
      in if indexA = indexB then int (length (lowerName a)) - int (length (lowerName b))
         else indexA - indexB)"

definition searchByName :: "casing \<Rightarrow> Country list \<Rightarrow> jsstring \<Rightarrow> Country list" where
  "searchByName U cs nm =
     (if nm = [] then []
      else let query = toLowerCase U nm
           in map original
                (sortBy (compareEntries query)
                   (filter (\<lambda>item. includes_str (lowerName item) query) (searchIndex U cs))))"

definition isValidAlpha2 :: "casing \<Rightarrow> Country list \<Rightarrow> jsstring \<Rightarrow> bool" where
  "isValidAlpha2 U cs code = (toUpperCase U code \<in> dom (alpha2Map (indexes cs)))"

definition isValidAlpha3 :: "casing \<Rightarrow> Country list \<Rightarrow> jsstring \<Rightarrow> bool" where
  "isValidAlpha3 U cs code = (toUpperCase U code \<in> dom (alpha3Map (indexes cs)))"

section \<open>Notions of the specification\<close>

text \<open>
  The words of the specification, written out so that the functions above can be compared
  with them. An occurrence of \<open>q\<close> in \<open>s\<close> at position \<open>i\<close>, and the first one:
\<close>

definition occursAt :: "jsstring \<Rightarrow> jsstring \<Rightarrow> nat \<Rightarrow> bool" where
  "occursAt s q i = (i \<le> length s \<and> take (length q) (drop i s) = q)"

definition firstOccurrence :: "jsstring \<Rightarrow> jsstring \<Rightarrow> nat \<Rightarrow> bool" where
  "firstOccurrence s q i = (occursAt s q i \<and> (\<forall>j<i. \<not> occursAt s q j))"

text \<open>
  The two ranking criteria of \<open>searchByName\<close> for a record: where the lower-cased query
  is found in its lower-cased name, and how long that lower-cased name is.
\<close>

definition matchPosition :: "casing \<Rightarrow> jsstring \<Rightarrow> Country \<Rightarrow> int" where
  "matchPosition U nm c = indexOf (toLowerCase U (name c)) (toLowerCase U nm)"

definition lowerLength :: "casing \<Rightarrow> Country \<Rightarrow> nat" where
  "lowerLength U c = length (toLowerCase U (name c))"

definition rankedBefore :: "casing \<Rightarrow> jsstring \<Rightarrow> Country \<Rightarrow> Country \<Rightarrow> bool" where
  "rankedBefore U nm a b =
     (matchPosition U nm a < matchPosition U nm b \<or>
      (matchPosition U nm a = matchPosition U nm b \<and> lowerLength U a \<le> lowerLength U b))"

text \<open>
  Both criteria as one key, ordered lexicographically: of a record, and of an entry of the
  search index as the comparator of \<open>searchByName\<close> reads it.
\<close>

definition rankKey :: "casing \<Rightarrow> jsstring \<Rightarrow> Country \<Rightarrow> int \<times> nat" where
  "rankKey U nm c = (matchPosition U nm c, lowerLength U c)"

definition entryKey :: "jsstring \<Rightarrow> SearchEntry \<Rightarrow> int \<times> nat" where
  "entryKey query e = (indexOf (lowerName e) query, length (lowerName e))"

text \<open>A case-insensitive match of two whole strings.\<close>

definition equalsIgnoreCase :: "casing \<Rightarrow> jsstring \<Rightarrow> jsstring \<Rightarrow> bool" where
  "equalsIgnoreCase U a b = (toLowerCase U a = toLowerCase U b)"

text \<open>The letters \<open>A\<close> to \<open>Z\<close>, of which the ISO codes are made.\<close>

definition isUpperLetter :: "code_unit \<Rightarrow> bool" where
  "isUpperLetter c = (0x41 \<le> c \<and> c \<le> 0x5A)"

text \<open>
  Modelled from the spec: the rows of raw-data.ts, which is not among the sources. The
  specification gives two invariants of them: \<open>alpha2\<close>, \<open>alpha3\<close> and \<open>numeric\<close> are
  each unique across the dataset, and the keys are stored uppercase.
\<close>

definition keysUnique :: "Country list \<Rightarrow> bool" where
  "keysUnique cs =
     (distinct (map alpha2 cs) \<and> distinct (map alpha3 cs) \<and> distinct (map numeric cs))"

definition keysUppercase :: "Country list \<Rightarrow> bool" where
  "keysUppercase cs =
     (\<forall>c \<in> set cs. list_all isUpperLetter (alpha2 c) \<and> list_all isUpperLetter (alpha3 c))"

section \<open>A few rows for evaluation\<close>

definition sampleRaw :: "BaseCountryData list" where
  "sampleRaw =
     [\<lparr>name = js ''Taiwan'', alpha2 = js ''TW'', alpha3 = js ''TWN'', numeric = js ''158''\<rparr>,
      \<lparr>name = js ''South Korea'', alpha2 = js ''KR'', alpha3 = js ''KOR'', numeric = js ''410''\<rparr>,
      \<lparr>name = js ''Iceland'', alpha2 = js ''IS'', alpha3 = js ''ISL'', numeric = js ''352''\<rparr>,
      \<lparr>name = js ''Finland'', alpha2 = js ''FI'', alpha3 = js ''FIN'', numeric = js ''246''\<rparr>,
      \<lparr>name = js ''Poland'', alpha2 = js ''PL'', alpha3 = js ''POL'', numeric = js ''616''\<rparr>]"

definition taiwan :: Country where
  "taiwan = \<lparr>name = js ''Taiwan'', alpha2 = js ''TW'', alpha3 = js ''TWN'',
             numeric = js ''158'', flag = [0xD83C, 0xDDF9, 0xD83C, 0xDDFC]\<rparr>"

definition southKorea :: Country where
  "southKorea = \<lparr>name = js ''South Korea'', alpha2 = js ''KR'', alpha3 = js ''KOR'',
                 numeric = js ''410'', flag = [0xD83C, 0xDDF0, 0xD83C, 0xDDF7]\<rparr>"

definition iceland :: Country where
  "iceland = \<lparr>name = js ''Iceland'', alpha2 = js ''IS'', alpha3 = js ''ISL'',
              numeric = js ''352'', flag = [0xD83C, 0xDDEE, 0xD83C, 0xDDF8]\<rparr>"

definition finland :: Country where
  "finland = \<lparr>name = js ''Finland'', alpha2 = js ''FI'', alpha3 = js ''FIN'',
              numeric = js ''246'', flag = [0xD83C, 0xDDEB, 0xD83C, 0xDDEE]\<rparr>"

definition poland :: Country where
  "poland = \<lparr>name = js ''Poland'', alpha2 = js ''PL'', alpha3 = js ''POL'',
             numeric = js ''616'', flag = [0xD83C, 0xDDF5, 0xD83C, 0xDDF1]\<rparr>"

definition nigeria :: Country where
  "nigeria = \<lparr>name = js ''Nigeria'', alpha2 = js ''NG'', alpha3 = js ''NGA'',
              numeric = js ''566'', flag = [0xD83C, 0xDDF3, 0xD83C, 0xDDEC]\<rparr>"

definition niger :: Country where
  "niger = \<lparr>name = js ''Niger'', alpha2 = js ''NE'', alpha3 = js ''NER'',
            numeric = js ''562'', flag = [0xD83C, 0xDDF3, 0xD83C, 0xDDEA]\<rparr>"

definition sampleCountries :: "Country list" where
  "sampleCountries = [taiwan, southKorea, iceland, finland, poland]"

section \<open>Strings: Basic Latin case conversion\<close>

lemma upper_letter_shift:
  assumes "isUpperLetter c"
  shows "unat (c + 0x20) = unat c + 32"
proof -
  from assms have "unat c \<le> 90"
    by (simp add: isUpperLetter_def word_le_nat_alt)
  then show ?thesis by (simp add: unat_word_ariths)
qed

lemma asciiLower_upper_letter:
  assumes "isUpperLetter c"
  shows "0x61 \<le> c + 0x20 \<and> c + 0x20 \<le> 0x7A"
proof -
  from assms have "65 \<le> unat c" "unat c \<le> 90"
    by (simp_all add: isUpperLetter_def word_le_nat_alt)
  then show ?thesis
    by (simp add: word_le_nat_alt upper_letter_shift [OF assms])
qed

lemma upper_letter_not_lower:
  assumes "isUpperLetter c"
  shows "\<not> (0x61 \<le> c \<and> c \<le> 0x7A)"
  using assms by (simp add: isUpperLetter_def word_le_nat_alt)

lemma asciiUpper_asciiLower: "asciiUpper (asciiLower c) = asciiUpper c"
proof (cases "isUpperLetter c")
  case True
  then have "asciiLower c = c + 0x20"
    by (simp add: asciiLower_def isUpperLetter_def)
  moreover have "asciiUpper (c + 0x20) = c"
    using asciiLower_upper_letter [OF True] by (simp add: asciiUpper_def)
  moreover have "asciiUpper c = c"
    using upper_letter_not_lower [OF True] by (simp add: asciiUpper_def)
  ultimately show ?thesis by simp
next
  case False
  then have "asciiLower c = c"
    by (auto simp add: asciiLower_def isUpperLetter_def)
  then show ?thesis by simp
qed

lemma isAscii_asciiLower:
  assumes "isAscii c"
  shows "isAscii (asciiLower c)"
proof (cases "isUpperLetter c")
  case True
  then have "asciiLower c = c + 0x20"
    by (simp add: asciiLower_def isUpperLetter_def)
  moreover have "c + 0x20 \<le> 0x7A"
    using asciiLower_upper_letter [OF True] by simp
  then have "c + 0x20 < 0x80"
    by (simp add: word_le_nat_alt word_less_nat_alt)
  ultimately show ?thesis by (simp add: isAscii_def)
next
  case False
  then have "asciiLower c = c"
    by (auto simp add: asciiLower_def isUpperLetter_def)
  with assms show ?thesis by simp
qed

lemma isUpperLetter_fix:
  assumes "isUpperLetter c"
  shows "asciiUpper c = c \<and> isAscii c"
proof
  show "asciiUpper c = c"
    using upper_letter_not_lower [OF assms] by (simp add: asciiUpper_def)
  from assms have "unat c \<le> 90"
    by (simp add: isUpperLetter_def word_le_nat_alt)
  then show "isAscii c"
    by (simp add: isAscii_def word_less_nat_alt)
qed

lemma lower_letter_shift:
  assumes "0x61 \<le> c" and "c \<le> (0x7A :: code_unit)"
  shows "isUpperLetter (c - 0x20)"
proof -
  from assms have b: "97 \<le> unat c" "unat c \<le> 122"
    by (simp_all add: word_le_nat_alt)
  have "(0x20 :: code_unit) \<le> c"
    using b by (simp add: word_le_nat_alt)
  then have "unat (c - 0x20) = unat c - 32"
    by (simp add: unat_sub)
  with b have "65 \<le> unat (c - 0x20)" and "unat (c - 0x20) \<le> 90"
    by linarith+
  then show ?thesis
    by (simp add: isUpperLetter_def word_le_nat_alt)
qed

lemma isAsciiLetter_upper:
  assumes "isAsciiLetter c"
  shows "isUpperLetter (asciiUpper c)"
proof (cases "0x61 \<le> c \<and> c \<le> 0x7A")
  case True
  then show ?thesis
    using lower_letter_shift [of c] by (simp add: asciiUpper_def)
next
  case False
  with assms have "isUpperLetter c"
    by (auto simp add: isAsciiLetter_def isUpperLetter_def)
  moreover from False have "asciiUpper c = c"
    by (auto simp add: asciiUpper_def)
  ultimately show ?thesis by simp
qed

lemma isAsciiLetter_isAscii:
  assumes "isAsciiLetter c"
  shows "isAscii c"
proof -
  from assms have "unat c \<le> 122"
    by (auto simp add: isAsciiLetter_def word_le_nat_alt)
  then show ?thesis by (simp add: isAscii_def word_less_nat_alt)
qed

lemma toUpperCase_ascii: "list_all isAscii s \<Longrightarrow> toUpperCase U s = map asciiUpper s"
  by (simp add: toUpperCase_def)

lemma toLowerCase_ascii: "list_all isAscii s \<Longrightarrow> toLowerCase U s = map asciiLower s"
  by (simp add: toLowerCase_def)

lemma ascii_round_trip:
  assumes "list_all isAscii s"
  shows "toUpperCase U (toLowerCase U s) = toUpperCase U s"
proof -
  have "list_all isAscii (map asciiLower s)"
    using assms by (simp add: list_all_iff isAscii_asciiLower)
  then show ?thesis
    using assms by (simp add: toUpperCase_ascii toLowerCase_ascii asciiUpper_asciiLower)
qed

lemma toUpperCase_upper_letters:
  assumes "list_all isUpperLetter s"
  shows "toUpperCase U s = s"
proof -
  have "list_all isAscii s" and "map asciiUpper s = s"
    using assms by (simp_all add: list_all_iff isUpperLetter_fix map_idI)
  then show ?thesis by (simp add: toUpperCase_ascii)
qed

lemma codePointUnits_in_range:
  "cp \<le> 0x10FFFF \<Longrightarrow> \<exists>u. codePointUnits cp = Inr u"
  by (simp add: codePointUnits_def)

lemma fromCodePoint_in_range:
  "\<forall>cp \<in> set cps. cp \<le> 0x10FFFF \<Longrightarrow> \<exists>s. fromCodePoint cps = Inr s"
proof (induction cps)
  case Nil
  then show ?case by simp
next
  case (Cons cp cps)
  then obtain u us where "codePointUnits cp = Inr u" "fromCodePoint cps = Inr us"
    using codePointUnits_in_range [of cp] by auto
  then show ?case by simp
qed

lemma getFlagEmoji_returns: "\<exists>s. getFlagEmoji U a = Inr s"
proof -
  have "127397 + unat c \<le> 0x10FFFF" for c :: code_unit
    using unsigned_less [of c, where 'a = nat] by simp
  then show ?thesis
    unfolding getFlagEmoji_def Let_def
    by (intro fromCodePoint_in_range) auto
qed

lemma regional_indicator_units:
  assumes "isUpperLetter u"
  shows "codePointUnits (127397 + unat u) = Inr [0xD83C, 0xDDA5 + u]"
proof -
  from assms have b: "65 \<le> unat u" "unat u \<le> 90"
    unfolding isUpperLetter_def by (simp_all add: word_le_nat_alt)
  then have split: "127397 + unat u - 0x10000 = (421 + unat u) + 60 * 0x400"
    and small: "421 + unat u < 0x400"
    by simp_all
  have hi: "(127397 + unat u - 0x10000) div 0x400 = 60"
    unfolding split using small by (simp only: div_mult_self3 div_less)
  have lo: "(127397 + unat u - 0x10000) mod 0x400 = 421 + unat u"
    unfolding split using small by (simp only: mod_mult_self1 mod_less)
  have "codePointUnits (127397 + unat u) =
        Inr [of_nat (0xD800 + 60), of_nat (0xDC00 + (421 + unat u))]"
    unfolding codePointUnits_def hi lo using b by simp
  then show ?thesis by simp
qed

section \<open>Strings: search\<close>

lemma occursAt_Cons_Suc: "occursAt (c # cs) q (Suc i) = occursAt cs q i"
  by (simp add: occursAt_def)

lemma occursAt_Cons_0: "occursAt (c # cs) q 0 = (take (length q) (c # cs) = q)"
  by (simp add: occursAt_def)

lemma occursAt_Nil: "occursAt [] q i = (i = 0 \<and> q = [])"
  by (auto simp add: occursAt_def)

lemma firstOccurrence_Cons_Suc:
  assumes "\<not> occursAt (c # cs) q 0" and "firstOccurrence cs q i"
  shows "firstOccurrence (c # cs) q (Suc i)"
  unfolding firstOccurrence_def
proof (intro conjI allI impI)
  show "occursAt (c # cs) q (Suc i)"
    using assms(2) by (simp add: firstOccurrence_def occursAt_Cons_Suc)
next
  fix j assume "j < Suc i"
  show "\<not> occursAt (c # cs) q j"
  proof (cases j)
    case 0
    then show ?thesis using assms(1) by simp
  next
    case (Suc j')
    then have "j' < i" using \<open>j < Suc i\<close> by simp
    then show ?thesis
      using assms(2) Suc by (simp add: firstOccurrence_def occursAt_Cons_Suc)
  qed
qed

lemma indexOfFrom_spec:
  "(indexOfFrom q s k = - 1 \<and> (\<forall>i. \<not> occursAt s q i)) \<or>
   (\<exists>i. indexOfFrom q s k = int (k + i) \<and> firstOccurrence s q i)"
proof (induction s arbitrary: k)
  case Nil
  show ?case
  proof (cases "q = []")
    case True
    then have "indexOfFrom q [] k = int (k + 0) \<and> firstOccurrence [] q 0"
      by (simp add: firstOccurrence_def occursAt_Nil)
    then show ?thesis by blast
  next
    case False
    then show ?thesis by (simp add: occursAt_Nil)
  qed
next
  case (Cons c cs)
  show ?case
  proof (cases "take (length q) (c # cs) = q")
    case True
    then have "indexOfFrom q (c # cs) k = int (k + 0) \<and> firstOccurrence (c # cs) q 0"
      by (simp add: firstOccurrence_def occursAt_Cons_0)
    then show ?thesis by blast
  next
    case False
    then have no0: "\<not> occursAt (c # cs) q 0"
      by (simp add: occursAt_Cons_0)
    from False have step: "indexOfFrom q (c # cs) k = indexOfFrom q cs (Suc k)"
      by simp
    from Cons.IH [of "Suc k"] show ?thesis
    proof
      assume a: "indexOfFrom q cs (Suc k) = - 1 \<and> (\<forall>i. \<not> occursAt cs q i)"
      have "\<not> occursAt (c # cs) q i" for i
        using a no0 by (cases i) (simp_all add: occursAt_Cons_Suc)
      with a step show ?thesis by simp
    next
      assume "\<exists>i. indexOfFrom q cs (Suc k) = int (Suc k + i) \<and> firstOccurrence cs q i"
      then obtain i where i: "indexOfFrom q cs (Suc k) = int (Suc k + i)"
        and f: "firstOccurrence cs q i" by blast
      have "indexOfFrom q (c # cs) k = int (k + Suc i)"
        using step i by simp
      moreover have "firstOccurrence (c # cs) q (Suc i)"
        using no0 f by (rule firstOccurrence_Cons_Suc)
      ultimately show ?thesis by blast
    qed
  qed
qed

lemma firstOccurrence_unique:
  "firstOccurrence s q i \<Longrightarrow> firstOccurrence s q j \<Longrightarrow> i = j"
proof (rule ccontr)
  assume a: "firstOccurrence s q i" and b: "firstOccurrence s q j" and "i \<noteq> j"
  then consider "i < j" | "j < i" by linarith
  then show False
  proof cases
    case 1
    with a b show False by (simp add: firstOccurrence_def)
  next
    case 2
    with a b show False by (simp add: firstOccurrence_def)
  qed
qed

lemma indexOf_spec:
  "(indexOf s q = - 1 \<and> (\<forall>i. \<not> occursAt s q i)) \<or>
   (\<exists>i. indexOf s q = int i \<and> firstOccurrence s q i)"
  using indexOfFrom_spec [of q s 0] by (simp add: indexOf_def)

lemma indexOf_found:
  assumes "indexOf s q \<noteq> - 1"
  shows "\<exists>i. indexOf s q = int i \<and> firstOccurrence s q i"
  using indexOf_spec [of s q] assms by blast

lemma indexOf_absent_iff: "(indexOf s q = - 1) = (\<forall>i. \<not> occursAt s q i)"
proof
  assume "indexOf s q = - 1"
  with indexOf_spec [of s q] show "\<forall>i. \<not> occursAt s q i" by auto
next
  assume a: "\<forall>i. \<not> occursAt s q i"
  from indexOf_spec [of s q] show "indexOf s q = - 1"
  proof
    assume "indexOf s q = - 1 \<and> (\<forall>i. \<not> occursAt s q i)"
    then show ?thesis by simp
  next
    assume "\<exists>i. indexOf s q = int i \<and> firstOccurrence s q i"
    then obtain i where "occursAt s q i" by (auto simp add: firstOccurrence_def)
    with a show ?thesis by simp
  qed
qed

lemma indexOf_firstOccurrence:
  assumes "firstOccurrence s q i"
  shows "indexOf s q = int i"
proof -
  from assms have "occursAt s q i" by (simp add: firstOccurrence_def)
  then have "indexOf s q \<noteq> - 1" by (auto simp add: indexOf_absent_iff)
  then obtain j where j: "indexOf s q = int j" "firstOccurrence s q j"
    using indexOf_found by blast
  with assms have "j = i" by (simp add: firstOccurrence_unique)
  with j show ?thesis by simp
qed

lemma occursAt_iff_split:
  "(\<exists>i. occursAt s q i) = (\<exists>pre post. s = pre @ q @ post)"
proof
  assume "\<exists>i. occursAt s q i"
  then obtain i where i: "i \<le> length s" "take (length q) (drop i s) = q"
    by (auto simp add: occursAt_def)
  have "s = take i s @ drop i s" by simp
  also have "drop i s = take (length q) (drop i s) @ drop (length q) (drop i s)"
    by (rule append_take_drop_id [symmetric])
  finally have "s = take i s @ q @ drop (length q) (drop i s)"
    using i(2) by simp
  then show "\<exists>pre post. s = pre @ q @ post" by blast
next
  assume "\<exists>pre post. s = pre @ q @ post"
  then obtain pre post where "s = pre @ q @ post" by blast
  then have "occursAt s q (length pre)" by (simp add: occursAt_def)
  then show "\<exists>i. occursAt s q i" by blast
qed

lemma includes_str_iff: "includes_str s q = (\<exists>pre post. s = pre @ q @ post)"
  by (simp add: includes_str_def indexOf_absent_iff occursAt_iff_split [symmetric])

lemma indexOf_self: "indexOf q q = 0"
  by (cases q) (simp_all add: indexOf_def)

lemma indexOf_zero_prefix:
  assumes "indexOf s q = 0"
  shows "take (length q) s = q"
proof -
  from assms have "indexOf s q \<noteq> - 1" by simp
  then obtain i where "indexOf s q = int i" "firstOccurrence s q i"
    using indexOf_found by blast
  with assms have "occursAt s q 0" by (simp add: firstOccurrence_def)
  then show ?thesis by (simp add: occursAt_def)
qed

lemma prefix_length_le:
  assumes "take (length q) s = q"
  shows "length q \<le> length s"
proof -
  have "length (take (length q) s) = length q" by (simp only: assms)
  then show ?thesis by simp
qed

lemma prefix_same_length:
  assumes "take (length q) s = q" and "length s = length q"
  shows "s = q"
proof -
  have "take (length q) s = s" using assms(2) by simp
  with assms(1) show ?thesis by simp
qed

lemma find_first_filter:
  assumes "find P xs = Some x" and "\<And>y. y \<in> set xs \<Longrightarrow> Q y \<Longrightarrow> P y" and "Q x"
  shows "\<exists>rest. filter Q xs = x # rest"
  using assms
proof (induction xs)
  case Nil
  then show ?case by simp
next
  case (Cons a xs)
  show ?case
  proof (cases "P a")
    case True
    with Cons.prems(1) have "a = x" by simp
    with Cons.prems(3) show ?thesis by simp
  next
    case False
    with Cons.prems(2) have "\<not> Q a" by auto
    moreover from False Cons.prems(1) have "find P xs = Some x" by simp
    then have "\<exists>rest. filter Q xs = x # rest"
      using Cons.prems(2,3) by (intro Cons.IH) auto
    ultimately show ?thesis by simp
  qed
qed

section \<open>Sorting\<close>

lemma insertBy_insort_key:
  assumes "\<And>a b. (cmp a b \<le> 0) = (key a \<le> key b)"
  shows "insertBy cmp x ys = insort_key key x ys"
  by (induction ys) (simp_all add: assms)

lemma sortBy_sort_key:
  assumes "\<And>a b. (cmp a b \<le> 0) = (key a \<le> key b)"
  shows "sortBy cmp xs = sort_key key xs"
proof -
  have "insertBy cmp = insort_key key"
    by (intro ext) (rule insertBy_insort_key [OF assms])
  then show ?thesis by (simp add: sortBy_def sort_key_def)
qed

lemma insort_key_map:
  "insort_key k (f x) (map f ys) = map f (insort_key (\<lambda>y. k (f y)) x ys)"
  by (induction ys) simp_all

lemma sort_key_map: "sort_key k (map f xs) = map f (sort_key (\<lambda>y. k (f y)) xs)"
  by (induction xs) (simp_all add: insort_key_map)

lemma compareEntries_key:
  "(compareEntries query a b \<le> 0) = (entryKey query a \<le> entryKey query b)"
  by (auto simp add: compareEntries_def entryKey_def Let_def less_eq_prod_def)

lemma searchByName_sort_key:
  assumes "nm \<noteq> []"
  shows "searchByName U cs nm =
         sort_key (rankKey U nm)
           (filter (\<lambda>c. includes_str (toLowerCase U (name c)) (toLowerCase U nm)) cs)"
proof -
  let ?mk = "\<lambda>country. \<lparr>original = country, lowerName = toLowerCase U (name country)\<rparr>"
  let ?q = "toLowerCase U nm"
  have key: "(\<lambda>c. entryKey ?q (?mk c)) = rankKey U nm"
    by (auto simp add: entryKey_def rankKey_def matchPosition_def lowerLength_def)
  have flt: "(\<lambda>item. includes_str (lowerName item) ?q) \<circ> ?mk =
             (\<lambda>c. includes_str (toLowerCase U (name c)) ?q)"
    by auto
  have "searchByName U cs nm =
        map original (sort_key (entryKey ?q)
          (filter (\<lambda>item. includes_str (lowerName item) ?q) (map ?mk cs)))"
    using assms
    by (simp add: searchByName_def searchIndex_def Let_def
        sortBy_sort_key [where key = "entryKey ?q", OF compareEntries_key])
  also have "\<dots> = map original (map ?mk (sort_key (rankKey U nm)
          (filter (\<lambda>c. includes_str (toLowerCase U (name c)) ?q) cs)))"
    by (simp only: filter_map sort_key_map key flt)
  also have "\<dots> = sort_key (rankKey U nm)
          (filter (\<lambda>c. includes_str (toLowerCase U (name c)) ?q) cs)"
    by (simp add: comp_def)
  finally show ?thesis .
qed

lemma rankKey_le: "(rankKey U nm a \<le> rankKey U nm b) = rankedBefore U nm a b"
  by (auto simp add: rankKey_def rankedBefore_def less_eq_prod_def)

lemma matched_iff_position:
  "includes_str (toLowerCase U (name c)) (toLowerCase U nm) = (matchPosition U nm c \<noteq> - 1)"
  by (simp add: includes_str_def matchPosition_def)

lemma searchByName_set:
  assumes "nm \<noteq> []"
  shows "set (searchByName U cs nm) = {c \<in> set cs. matchPosition U nm c \<noteq> - 1}"
  by (simp add: searchByName_sort_key [OF assms] matched_iff_position)

section \<open>The three indexes\<close>

lemma find_snoc:
  "find P (xs @ [x]) = (case find P xs of Some y \<Rightarrow> Some y | None \<Rightarrow> if P x then Some x else None)"
  by (induction xs) simp_all

lemma fold_update_last:
  "fold (\<lambda>c m. m(key c \<mapsto> c)) cs m0 k =
     (case find (\<lambda>c. key c = k) (rev cs) of Some c \<Rightarrow> Some c | None \<Rightarrow> m0 k)"
proof (induction cs arbitrary: m0)
  case Nil
  show ?case by simp
next
  case (Cons c cs)
  have "fold (\<lambda>c m. m(key c \<mapsto> c)) (c # cs) m0 k =
        fold (\<lambda>c m. m(key c \<mapsto> c)) cs (m0(key c \<mapsto> c)) k"
    by (simp only: fold.simps o_apply)
  also have "\<dots> = (case find (\<lambda>c. key c = k) (rev cs) of
                      Some c' \<Rightarrow> Some c' | None \<Rightarrow> (m0(key c \<mapsto> c)) k)"
    by (rule Cons.IH)
  also have "\<dots> = (case find (\<lambda>c. key c = k) (rev (c # cs)) of
                      Some c' \<Rightarrow> Some c' | None \<Rightarrow> m0 k)"
    by (simp add: find_snoc split: option.split)
  finally show ?case .
qed

lemma fold_setCountry_alpha2:
  "alpha2Map (fold setCountry cs ix) = fold (\<lambda>c m. m(alpha2 c \<mapsto> c)) cs (alpha2Map ix)"
  by (induction cs arbitrary: ix) (simp_all add: setCountry_def)

lemma fold_setCountry_alpha3:
  "alpha3Map (fold setCountry cs ix) = fold (\<lambda>c m. m(alpha3 c \<mapsto> c)) cs (alpha3Map ix)"
  by (induction cs arbitrary: ix) (simp_all add: setCountry_def)

lemma fold_setCountry_numeric:
  "numericMap (fold setCountry cs ix) = fold (\<lambda>c m. m(numeric c \<mapsto> c)) cs (numericMap ix)"
  by (induction cs arbitrary: ix) (simp_all add: setCountry_def)

lemma alpha2Map_last: "alpha2Map (indexes cs) k = find (\<lambda>c. alpha2 c = k) (rev cs)"
  by (simp add: indexes_def fold_setCountry_alpha2 fold_update_last split: option.split)

lemma alpha3Map_last: "alpha3Map (indexes cs) k = find (\<lambda>c. alpha3 c = k) (rev cs)"
  by (simp add: indexes_def fold_setCountry_alpha3 fold_update_last split: option.split)

lemma numericMap_last: "numericMap (indexes cs) k = find (\<lambda>c. numeric c = k) (rev cs)"
  by (simp add: indexes_def fold_setCountry_numeric fold_update_last split: option.split)

lemma find_unique:
  assumes "c \<in> set xs" and "P c" and "\<And>y. y \<in> set xs \<Longrightarrow> P y \<Longrightarrow> y = c"
  shows "find P xs = Some c"
  using assms
proof (induction xs)
  case Nil
  then show ?case by simp
next
  case (Cons a xs)
  show ?case
  proof (cases "P a")
    case True
    with Cons.prems(3) [of a] show ?thesis by simp
  next
    case False
    with Cons.prems(1,2) have "c \<in> set xs" by auto
    then have "find P xs = Some c"
      using Cons.prems(2,3) by (intro Cons.IH) auto
    with False show ?thesis by simp
  qed
qed

lemma find_distinct_key:
  assumes "distinct (map key cs)" and "c \<in> set cs"
  shows "find (\<lambda>x. key x = key c) (rev cs) = Some c"
proof (rule find_unique)
  show "c \<in> set (rev cs)" using assms(2) by simp
  show "key c = key c" by simp
  fix y assume "y \<in> set (rev cs)" and "key y = key c"
  moreover from assms(1) have "inj_on key (set cs)" by (simp add: distinct_map)
  ultimately show "y = c" using assms(2) by (simp add: inj_on_eq_iff)
qed

lemma searchByName_sorted:
  assumes "nm \<noteq> []"
  shows "sorted_wrt (rankedBefore U nm) (searchByName U cs nm)"
proof -
  let ?matched = "filter (\<lambda>c. includes_str (toLowerCase U (name c)) (toLowerCase U nm)) cs"
  have "sorted (map (rankKey U nm) (sort_key (rankKey U nm) ?matched))"
    by (rule sorted_sort_key)
  then show ?thesis
    by (simp only: searchByName_sort_key [OF assms] sorted_map rankKey_le)
qed

lemma searchByName_positions:
  assumes "nm \<noteq> []" and "c \<in> set (searchByName U cs nm)"
  shows "\<exists>i. matchPosition U nm c = int i \<and>
             firstOccurrence (toLowerCase U (name c)) (toLowerCase U nm) i"
proof -
  from assms have "matchPosition U nm c \<noteq> - 1"
    by (simp add: searchByName_set)
  then show ?thesis
    unfolding matchPosition_def by (rule indexOf_found)
qed

lemma searchByName_stable:
  assumes "nm \<noteq> []"
  shows "filter (\<lambda>c. matchPosition U nm c = int i \<and> lowerLength U c = l)
           (searchByName U cs nm) =
         filter (\<lambda>c. matchPosition U nm c = int i \<and> lowerLength U c = l) cs"
proof -
  let ?matched = "filter (\<lambda>c. includes_str (toLowerCase U (name c)) (toLowerCase U nm)) cs"
  let ?tie = "\<lambda>c. matchPosition U nm c = int i \<and> lowerLength U c = l"
  have tie: "?tie = (\<lambda>c. rankKey U nm c = (int i, l))"
    by (simp add: rankKey_def)
  have "filter ?tie (searchByName U cs nm) = filter ?tie ?matched"
    by (simp only: searchByName_sort_key [OF assms] tie sort_key_stable)
  also have "\<dots> =
      filter (\<lambda>c. includes_str (toLowerCase U (name c)) (toLowerCase U nm) \<and> ?tie c) cs"
    by (simp only: filter_filter)
  also have "\<dots> = filter ?tie cs"
    by (rule filter_cong) (auto simp add: matched_iff_position)
  finally show ?thesis .
qed

lemma countries_returns: "\<exists>cs. countries U raw = Inr cs"
proof (induction raw)
  case Nil
  show ?case by simp
next
  case (Cons d ds)
  then obtain cs where "countries U ds = Inr cs" by blast
  moreover obtain f where "getFlagEmoji U (alpha2 d) = Inr f"
    using getFlagEmoji_returns by blast
  ultimately show ?case by simp
qed

lemma countries_rows:
  "countries U raw = Inr cs \<Longrightarrow>
   list_all2 (\<lambda>d c. name c = name d \<and> alpha2 c = alpha2 d \<and> alpha3 c = alpha3 d \<and>
                     numeric c = numeric d \<and> getFlagEmoji U (alpha2 d) = Inr (flag c)) raw cs"
proof (induction raw arbitrary: cs)
  case Nil
  then show ?case by simp
next
  case (Cons d ds)
  from Cons.prems obtain f cs' where f: "getFlagEmoji U (alpha2 d) = Inr f"
    and cs': "countries U ds = Inr cs'"
    and cs: "cs = \<lparr>name = name d, alpha2 = alpha2 d, alpha3 = alpha3 d,
                    numeric = numeric d, flag = f\<rparr> # cs'"
    by (auto split: sum.splits)
  from Cons.IH [OF cs'] f show ?case
    unfolding cs by simp
qed

lemmas evals = js_def toLowerCase_def toUpperCase_def isAscii_def asciiLower_def asciiUpper_def
  kelvinCasing_def sampleCountries_def taiwan_def southKorea_def iceland_def finland_def
  poland_def

lemma find_append_None: "find P xs = None \<Longrightarrow> find P (xs @ ys) = find P ys"
  by (induction xs) (simp_all split: if_splits)

section \<open>The claims\<close>

text \<open>
  C1. For a non-empty query, the result of \<open>searchByName\<close> is sorted by the position of
  the first occurrence of the lower-cased query in the lower-cased name, earlier first,
  then by the length of that lower-cased name, shorter first (\<open>rankedBefore\<close>); every
  returned record has such a position, which is the first occurrence; and the records
  tied on both criteria are in the result in the order they have in the dataset.
\<close>

theorem searchByName_ranked:
  assumes "nm \<noteq> []"
  shows "sorted_wrt (rankedBefore U nm) (searchByName U cs nm) \<and>
         (\<forall>c \<in> set (searchByName U cs nm).
            \<exists>i. matchPosition U nm c = int i \<and>
                firstOccurrence (toLowerCase U (name c)) (toLowerCase U nm) i) \<and>
         (\<forall>i l. filter (\<lambda>c. matchPosition U nm c = int i \<and> lowerLength U c = l)
                   (searchByName U cs nm) =
                 filter (\<lambda>c. matchPosition U nm c = int i \<and> lowerLength U c = l) cs)"
  using searchByName_sorted [OF assms] searchByName_positions [OF assms]
    searchByName_stable [OF assms]
  by blast

text \<open>
  On the sample, \<open>AN\<close> is found at position 3 in Poland and at position 4 in Taiwan
  (six letters), Iceland and Finland (seven letters each, kept in dataset order).
\<close>

theorem searchByName_ranked_witness:
  "js ''AN'' \<noteq> [] \<and>
   searchByName kelvinCasing sampleCountries (js ''AN'') = [poland, taiwan, iceland, finland] \<and>
   sorted_wrt (rankedBefore kelvinCasing (js ''AN'')) [poland, taiwan, iceland, finland] \<and>
   filter (\<lambda>c. matchPosition kelvinCasing (js ''AN'') c = int 4 \<and> lowerLength kelvinCasing c = 7)
     [poland, taiwan, iceland, finland] =
   filter (\<lambda>c. matchPosition kelvinCasing (js ''AN'') c = int 4 \<and> lowerLength kelvinCasing c = 7)
     sampleCountries"
proof -
  have q: "js ''AN'' \<noteq> []" by (simp add: js_def)
  have res: "searchByName kelvinCasing sampleCountries (js ''AN'') =
             [poland, taiwan, iceland, finland]"
    by (simp add: evals searchByName_def searchIndex_def sortBy_def compareEntries_def
        includes_str_def indexOf_def Let_def)
  from searchByName_ranked [OF q, of kelvinCasing sampleCountries] q show ?thesis
    unfolding res by blast
qed

text \<open>
  C2. On the empty query \<open>searchByName\<close> returns the empty sequence. On any other query
  it returns exactly the records of the dataset whose lower-cased name contains the
  lower-cased query as a substring, each as often as the dataset has it.
\<close>

theorem searchByName_exact:
  "searchByName U cs [] = [] \<and>
   (nm \<noteq> [] \<longrightarrow>
      mset (searchByName U cs nm) =
      mset (filter (\<lambda>c. \<exists>pre post. toLowerCase U (name c) = pre @ toLowerCase U nm @ post) cs))"
proof (intro conjI impI)
  show "searchByName U cs [] = []" by (simp add: searchByName_def)
next
  assume nm: "nm \<noteq> []"
  show "mset (searchByName U cs nm) =
        mset (filter (\<lambda>c. \<exists>pre post. toLowerCase U (name c) = pre @ toLowerCase U nm @ post) cs)"
    by (simp add: searchByName_sort_key [OF nm] includes_str_iff)
qed

theorem searchByName_exact_witness:
  "js ''land'' \<noteq> [] \<and>
   searchByName kelvinCasing sampleCountries (js ''land'') = [poland, iceland, finland] \<and>
   mset [poland, iceland, finland] =
   mset (filter (\<lambda>c. \<exists>pre post. toLowerCase kelvinCasing (name c) =
                       pre @ toLowerCase kelvinCasing (js ''land'') @ post) sampleCountries) \<and>
   searchByName kelvinCasing sampleCountries [] = []"
proof -
  have q: "js ''land'' \<noteq> []" by (simp add: js_def)
  have res: "searchByName kelvinCasing sampleCountries (js ''land'') =
             [poland, iceland, finland]"
    by (simp add: evals searchByName_def searchIndex_def sortBy_def compareEntries_def
        includes_str_def indexOf_def Let_def)
  from searchByName_exact [of kelvinCasing sampleCountries "js ''land''"] q show ?thesis
    unfolding res by blast
qed

text \<open>
  C3. \<open>getCountryByName\<close> returns nothing on the empty string. On any other string it
  returns nothing exactly when no record's name equals the input up to case, and
  otherwise the first record in dataset order whose whole name does; for Basic Latin
  strings such a name has the length of the input and the same letters up to case.
\<close>

theorem getCountryByName_first_exact_match:
  "getCountryByName U cs [] = None \<and>
   (nm \<noteq> [] \<longrightarrow>
      (getCountryByName U cs nm = None) =
        (\<forall>c \<in> set cs. \<not> equalsIgnoreCase U (name c) nm)) \<and>
   (nm \<noteq> [] \<longrightarrow>
      (getCountryByName U cs nm = Some r) =
        (\<exists>i<length cs. cs ! i = r \<and> equalsIgnoreCase U (name r) nm \<and>
           (\<forall>j<i. \<not> equalsIgnoreCase U (name (cs ! j)) nm))) \<and>
   (getCountryByName U cs nm = Some r \<and> list_all isAscii nm \<and> list_all isAscii (name r) \<longrightarrow>
      map asciiLower (name r) = map asciiLower nm \<and> length (name r) = length nm)"
proof (intro conjI impI)
  show "getCountryByName U cs [] = None"
    by (simp add: getCountryByName_def)
next
  assume "nm \<noteq> []"
  then show "(getCountryByName U cs nm = None) =
             (\<forall>c \<in> set cs. \<not> equalsIgnoreCase U (name c) nm)"
    by (auto simp add: getCountryByName_def equalsIgnoreCase_def find_None_iff)
next
  assume "nm \<noteq> []"
  then show "(getCountryByName U cs nm = Some r) =
             (\<exists>i<length cs. cs ! i = r \<and> equalsIgnoreCase U (name r) nm \<and>
                (\<forall>j<i. \<not> equalsIgnoreCase U (name (cs ! j)) nm))"
    by (auto simp add: getCountryByName_def equalsIgnoreCase_def find_Some_iff)
next
  assume a: "getCountryByName U cs nm = Some r \<and> list_all isAscii nm \<and>
             list_all isAscii (name r)"
  then have "toLowerCase U (name r) = toLowerCase U nm"
    by (auto simp add: getCountryByName_def find_Some_iff split: if_splits)
  with a show "map asciiLower (name r) = map asciiLower nm"
    by (simp add: toLowerCase_ascii)
  then have "length (map asciiLower (name r)) = length (map asciiLower nm)"
    by (rule arg_cong)
  then show "length (name r) = length nm" by simp
qed

text \<open>\<open>TAIWAN\<close> finds Taiwan, the prefix \<open>Taiw\<close> finds nothing.\<close>

theorem getCountryByName_first_exact_match_witness:
  "js ''TAIWAN'' \<noteq> [] \<and> js ''Taiw'' \<noteq> [] \<and>
   getCountryByName kelvinCasing sampleCountries (js ''TAIWAN'') = Some taiwan \<and>
   (\<exists>i<length sampleCountries. sampleCountries ! i = taiwan \<and>
      equalsIgnoreCase kelvinCasing (name taiwan) (js ''TAIWAN'') \<and>
      (\<forall>j<i. \<not> equalsIgnoreCase kelvinCasing (name (sampleCountries ! j)) (js ''TAIWAN''))) \<and>
   length (name taiwan) = length (js ''TAIWAN'') \<and>
   getCountryByName kelvinCasing sampleCountries (js ''Taiw'') = None \<and>
   \<not> equalsIgnoreCase kelvinCasing (name taiwan) (js ''Taiw'')"
proof -
  have q: "js ''TAIWAN'' \<noteq> []" "js ''Taiw'' \<noteq> []"
    by (simp_all add: js_def)
  have found: "getCountryByName kelvinCasing sampleCountries (js ''TAIWAN'') = Some taiwan"
    by (simp add: evals getCountryByName_def)
  have ascii: "list_all isAscii (js ''TAIWAN'')" "list_all isAscii (name taiwan)"
    by (simp_all add: evals)
  have absent: "getCountryByName kelvinCasing sampleCountries (js ''Taiw'') = None"
    by (simp add: evals getCountryByName_def)
  have member: "taiwan \<in> set sampleCountries"
    by (simp add: sampleCountries_def)
  from getCountryByName_first_exact_match
         [of kelvinCasing sampleCountries "js ''TAIWAN''" taiwan]
       getCountryByName_first_exact_match
         [of kelvinCasing sampleCountries "js ''Taiw''" taiwan]
       q found ascii absent member
  show ?thesis by blast
qed

text \<open>
  C4, as amended. For every input string \<open>code\<close> of Basic Latin code units, and more
  generally whenever upper-casing the lower-cased \<open>code\<close> gives the upper-cased \<open>code\<close>,
  \<open>getCountryByAlpha2\<close> returns the same on \<open>code\<close> and on its lower-casing, and so does
  \<open>getCountryByAlpha3\<close>; each looks the upper-cased input up in its index.
\<close>

theorem lookup_case_insensitive:
  assumes "list_all isAscii code \<or> toUpperCase U (toLowerCase U code) = toUpperCase U code"
  shows "getCountryByAlpha2 U cs (toLowerCase U code) = getCountryByAlpha2 U cs code \<and>
         getCountryByAlpha3 U cs (toLowerCase U code) = getCountryByAlpha3 U cs code \<and>
         getCountryByAlpha2 U cs code = alpha2Map (indexes cs) (toUpperCase U code) \<and>
         getCountryByAlpha3 U cs code = alpha3Map (indexes cs) (toUpperCase U code)"
proof -
  from assms have "toUpperCase U (toLowerCase U code) = toUpperCase U code"
    using ascii_round_trip by blast
  then show ?thesis
    by (simp add: getCountryByAlpha2_def getCountryByAlpha3_def)
qed

theorem lookup_case_insensitive_witness:
  "list_all isAscii (js ''Tw'') \<and>
   getCountryByAlpha2 kelvinCasing sampleCountries (toLowerCase kelvinCasing (js ''Tw'')) =
     getCountryByAlpha2 kelvinCasing sampleCountries (js ''Tw'') \<and>
   getCountryByAlpha3 kelvinCasing sampleCountries (toLowerCase kelvinCasing (js ''Tw'')) =
     getCountryByAlpha3 kelvinCasing sampleCountries (js ''Tw'') \<and>
   getCountryByAlpha2 kelvinCasing sampleCountries (js ''Tw'') = Some taiwan"
proof -
  have a: "list_all isAscii (js ''Tw'')" by (simp add: js_def isAscii_def)
  have "getCountryByAlpha2 kelvinCasing sampleCountries (js ''Tw'') = Some taiwan"
    by (simp add: evals getCountryByAlpha2_def indexes_def setCountry_def)
  with lookup_case_insensitive [of "js ''Tw''" kelvinCasing sampleCountries] a
  show ?thesis by blast
qed

text \<open>
  The claim as stated, for every input string, fails on a string with U+212A KELVIN
  SIGN: \<open>toUpperCase\<close> leaves the sign as it is, so the string is no key, while
  \<open>toLowerCase\<close> turns it into \<open>k\<close> and the lookup of \<open>kr\<close> finds South Korea.
\<close>

theorem lookup_case_insensitive_counterexample:
  "getCountryByAlpha2 kelvinCasing sampleCountries [0x212A, 0x52] = None \<and>
   getCountryByAlpha2 kelvinCasing sampleCountries (toLowerCase kelvinCasing [0x212A, 0x52]) =
     Some southKorea \<and>
   getCountryByAlpha2 kelvinCasing sampleCountries [0x212A, 0x52] \<noteq>
   getCountryByAlpha2 kelvinCasing sampleCountries (toLowerCase kelvinCasing [0x212A, 0x52])"
  by (simp add: evals getCountryByAlpha2_def indexes_def setCountry_def)

text \<open>
  C5. In a dataset whose \<open>alpha2\<close>, \<open>alpha3\<close> and \<open>numeric\<close> fields are each unique and
  whose keys are stored uppercase, every alpha-2 code of the dataset is found by
  \<open>getCountryByAlpha2\<close>, and the record found is the one that \<open>getCountryByAlpha3\<close>
  returns for its \<open>alpha3\<close> and \<open>getCountryByNumeric\<close> for its \<open>numeric\<close>.
\<close>

theorem three_indexes_agree:
  assumes "keysUnique cs" and "keysUppercase cs" and "code \<in> alpha2 ` set cs"
  shows "\<exists>r. getCountryByAlpha2 U cs code = Some r \<and> r \<in> set cs \<and> alpha2 r = code \<and>
             getCountryByAlpha3 U cs (alpha3 r) = Some r \<and>
             getCountryByNumeric cs (numeric r) = Some r"
proof -
  from assms(3) obtain r where r: "r \<in> set cs" "alpha2 r = code" by auto
  from assms(2) r(1) have up: "toUpperCase U (alpha2 r) = alpha2 r"
    "toUpperCase U (alpha3 r) = alpha3 r"
    by (simp_all add: keysUppercase_def toUpperCase_upper_letters)
  from assms(1) have d: "distinct (map alpha2 cs)" "distinct (map alpha3 cs)"
    "distinct (map numeric cs)"
    by (simp_all add: keysUnique_def)
  have "getCountryByAlpha2 U cs code = Some r"
    using find_distinct_key [OF d(1) r(1)] up(1) r(2)
    by (simp add: getCountryByAlpha2_def alpha2Map_last)
  moreover have "getCountryByAlpha3 U cs (alpha3 r) = Some r"
    using find_distinct_key [OF d(2) r(1)] up(2)
    by (simp add: getCountryByAlpha3_def alpha3Map_last)
  moreover have "getCountryByNumeric cs (numeric r) = Some r"
    using find_distinct_key [OF d(3) r(1)]
    by (simp add: getCountryByNumeric_def numericMap_last)
  ultimately show ?thesis using r by blast
qed

theorem three_indexes_agree_witness:
  "keysUnique sampleCountries \<and> keysUppercase sampleCountries \<and>
   js ''KR'' \<in> alpha2 ` set sampleCountries \<and>
   (\<exists>r. getCountryByAlpha2 kelvinCasing sampleCountries (js ''KR'') = Some r \<and>
        r \<in> set sampleCountries \<and> alpha2 r = js ''KR'' \<and>
        getCountryByAlpha3 kelvinCasing sampleCountries (alpha3 r) = Some r \<and>
        getCountryByNumeric sampleCountries (numeric r) = Some r)"
proof -
  have u: "keysUnique sampleCountries"
    by (simp add: evals keysUnique_def)
  have k: "keysUppercase sampleCountries"
    by (simp add: evals keysUppercase_def isUpperLetter_def)
  have c: "js ''KR'' \<in> alpha2 ` set sampleCountries"
    by (simp add: evals)
  from three_indexes_agree [OF u k c, of kelvinCasing] u k c show ?thesis by blast
qed

text \<open>
  C6. \<open>isValidAlpha2\<close> is true exactly when \<open>getCountryByAlpha2\<close> returns a record, and
  \<open>isValidAlpha3\<close> exactly when \<open>getCountryByAlpha3\<close> does, for every input string.
\<close>

theorem isValid_iff_found:
  "isValidAlpha2 U cs code = (getCountryByAlpha2 U cs code \<noteq> None) \<and>
   isValidAlpha3 U cs code = (getCountryByAlpha3 U cs code \<noteq> None)"
  by (simp add: isValidAlpha2_def isValidAlpha3_def getCountryByAlpha2_def
      getCountryByAlpha3_def dom_def)

theorem isValid_iff_found_witness:
  "isValidAlpha2 kelvinCasing sampleCountries (js ''pl'') \<and>
   getCountryByAlpha2 kelvinCasing sampleCountries (js ''pl'') = Some poland \<and>
   \<not> isValidAlpha3 kelvinCasing sampleCountries (js ''XXY'') \<and>
   getCountryByAlpha3 kelvinCasing sampleCountries (js ''XXY'') = None"
proof -
  have "getCountryByAlpha2 kelvinCasing sampleCountries (js ''pl'') = Some poland"
    and "getCountryByAlpha3 kelvinCasing sampleCountries (js ''XXY'') = None"
    by (simp_all add: evals getCountryByAlpha2_def getCountryByAlpha3_def indexes_def
        setCountry_def)
  with isValid_iff_found [of kelvinCasing sampleCountries "js ''pl''"]
       isValid_iff_found [of kelvinCasing sampleCountries "js ''XXY''"]
  show ?thesis by simp
qed

text \<open>
  C7. Each of \<open>getEmojiByAlpha2\<close>, \<open>getEmojiByAlpha3\<close> and \<open>getEmojiByNumeric\<close> returns
  the \<open>flag\<close> of the record its \<open>getCountryBy\<close> lookup returns, and nothing when that
  lookup returns nothing; no case raises.
\<close>

theorem emoji_is_flag_of_lookup:
  "getEmojiByAlpha2 U cs code = map_option flag (getCountryByAlpha2 U cs code) \<and>
   getEmojiByAlpha3 U cs code = map_option flag (getCountryByAlpha3 U cs code) \<and>
   getEmojiByNumeric cs code = map_option flag (getCountryByNumeric cs code)"
  by (simp add: getEmojiByAlpha2_def getEmojiByAlpha3_def getEmojiByNumeric_def
      split: option.split)

theorem emoji_is_flag_of_lookup_witness:
  "getEmojiByAlpha2 kelvinCasing sampleCountries (js ''TW'') = Some (flag taiwan) \<and>
   getEmojiByAlpha3 kelvinCasing sampleCountries (js ''fin'') = Some (flag finland) \<and>
   getEmojiByNumeric sampleCountries (js ''999'') = None"
proof -
  have "getCountryByAlpha2 kelvinCasing sampleCountries (js ''TW'') = Some taiwan"
    and "getCountryByAlpha3 kelvinCasing sampleCountries (js ''fin'') = Some finland"
    and "getCountryByNumeric sampleCountries (js ''999'') = None"
    by (simp_all add: evals getCountryByAlpha2_def getCountryByAlpha3_def
        getCountryByNumeric_def indexes_def setCountry_def)
  with emoji_is_flag_of_lookup [of kelvinCasing sampleCountries "js ''TW''"]
       emoji_is_flag_of_lookup [of kelvinCasing sampleCountries "js ''fin''"]
       emoji_is_flag_of_lookup [of kelvinCasing sampleCountries "js ''999''"]
  show ?thesis by simp
qed

text \<open>
  C8. For two Basic Latin letters \<open>a\<close> and \<open>b\<close>, \<open>getFlagEmoji\<close> returns the string of
  the two code points 127397 plus the uppercase letter, each of them one code point,
  written in UTF-16 as the surrogate pair \<open>0xD83C\<close>, \<open>0xDDA5\<close> plus the uppercase
  letter. Loading \<open>countries\<close> never raises, keeps the rows' codes, and gives every
  record the flag that \<open>getFlagEmoji\<close> returns for its \<open>alpha2\<close>.
\<close>

theorem flag_of_two_letters:
  "(isAsciiLetter a \<and> isAsciiLetter b \<longrightarrow>
      getFlagEmoji U [a, b] =
        fromCodePoint [127397 + unat (asciiUpper a), 127397 + unat (asciiUpper b)] \<and>
      getFlagEmoji U [a, b] =
        Inr [0xD83C, 0xDDA5 + asciiUpper a, 0xD83C, 0xDDA5 + asciiUpper b]) \<and>
   (\<exists>cs. countries U raw = Inr cs \<and> map alpha2 cs = map alpha2 raw \<and>
         (\<forall>c \<in> set cs. getFlagEmoji U (alpha2 c) = Inr (flag c)))"
proof (intro conjI impI)
  assume l: "isAsciiLetter a \<and> isAsciiLetter b"
  then have "list_all isAscii [a, b]"
    by (simp add: isAsciiLetter_isAscii)
  then have up: "toUpperCase U [a, b] = [asciiUpper a, asciiUpper b]"
    by (simp add: toUpperCase_ascii)
  then show cps: "getFlagEmoji U [a, b] =
      fromCodePoint [127397 + unat (asciiUpper a), 127397 + unat (asciiUpper b)]"
    by (simp add: getFlagEmoji_def)
  from l have "isUpperLetter (asciiUpper a)" "isUpperLetter (asciiUpper b)"
    by (simp_all add: isAsciiLetter_upper)
  then show "getFlagEmoji U [a, b] =
      Inr [0xD83C, 0xDDA5 + asciiUpper a, 0xD83C, 0xDDA5 + asciiUpper b]"
    unfolding cps by (simp add: regional_indicator_units)
next
  obtain cs where cs: "countries U raw = Inr cs"
    using countries_returns by blast
  let ?row = "\<lambda>d c. name c = name d \<and> alpha2 c = alpha2 d \<and> alpha3 c = alpha3 d \<and>
                     numeric c = numeric d \<and> getFlagEmoji U (alpha2 d) = Inr (flag c)"
  have rows: "list_all2 ?row raw cs"
    using cs by (rule countries_rows)
  have "map alpha2 cs = map alpha2 raw"
    using rows by (induction rule: list_all2_induct) simp_all
  moreover have "\<forall>c \<in> set cs. getFlagEmoji U (alpha2 c) = Inr (flag c)"
    using rows by (induction rule: list_all2_induct) simp_all
  ultimately show "\<exists>cs. countries U raw = Inr cs \<and> map alpha2 cs = map alpha2 raw \<and>
         (\<forall>c \<in> set cs. getFlagEmoji U (alpha2 c) = Inr (flag c))"
    using cs by blast
qed

theorem flag_of_two_letters_witness:
  "isAsciiLetter 0x74 \<and> isAsciiLetter 0x77 \<and>
   getFlagEmoji kelvinCasing [0x74, 0x77] = fromCodePoint [127397 + 84, 127397 + 87] \<and>
   getFlagEmoji kelvinCasing [0x74, 0x77] = Inr [0xD83C, 0xDDF9, 0xD83C, 0xDDFC] \<and>
   countries kelvinCasing sampleRaw = Inr sampleCountries"
proof -
  have l: "isAsciiLetter 0x74 \<and> isAsciiLetter 0x77"
    by (simp add: isAsciiLetter_def)
  have c: "countries kelvinCasing sampleRaw = Inr sampleCountries"
    by (simp add: evals sampleRaw_def getFlagEmoji_def codePointUnits_def)
  from flag_of_two_letters [of "0x74" "0x77" kelvinCasing sampleRaw] l c
  show ?thesis by (simp add: asciiUpper_def codePointUnits_def)
qed

text \<open>
  C9. Each of the three indexes maps a key to the last record of the dataset that has
  it: a record is returned for its key whenever no record after it shares the key,
  whatever records before it do. The search index has one entry for each record, in
  dataset order, pairing the record with its lower-cased name.
\<close>

theorem index_construction:
  "alpha2Map (indexes cs) k = find (\<lambda>c. alpha2 c = k) (rev cs) \<and>
   alpha3Map (indexes cs) k = find (\<lambda>c. alpha3 c = k) (rev cs) \<and>
   numericMap (indexes cs) k = find (\<lambda>c. numeric c = k) (rev cs) \<and>
   (\<forall>pre c post. cs = pre @ c # post \<and> alpha2 c \<notin> alpha2 ` set post \<longrightarrow>
      alpha2Map (indexes cs) (alpha2 c) = Some c) \<and>
   (\<forall>pre c post. cs = pre @ c # post \<and> alpha3 c \<notin> alpha3 ` set post \<longrightarrow>
      alpha3Map (indexes cs) (alpha3 c) = Some c) \<and>
   (\<forall>pre c post. cs = pre @ c # post \<and> numeric c \<notin> numeric ` set post \<longrightarrow>
      numericMap (indexes cs) (numeric c) = Some c) \<and>
   length (searchIndex U cs) = length cs \<and>
   (\<forall>i<length cs. searchIndex U cs ! i =
      \<lparr>original = cs ! i, lowerName = toLowerCase U (name (cs ! i))\<rparr>)"
proof -
  have last_wins: "find (\<lambda>x. key x = key c) (rev post @ c # rev pre) = Some c"
    if "key c \<notin> key ` set post" for key :: "Country \<Rightarrow> jsstring" and pre c post
  proof -
    from that have "\<forall>x \<in> set post. key x \<noteq> key c"
      by (metis imageI)
    then have "find (\<lambda>x. key x = key c) (rev post) = None"
      by (simp add: find_None_iff)
    then show ?thesis by (simp add: find_append_None)
  qed
  show ?thesis
    by (simp add: alpha2Map_last alpha3Map_last numericMap_last last_wins searchIndex_def)
qed

text \<open>Two records with the key \<open>TW\<close>: the lookup returns the later one.\<close>

theorem index_construction_witness:
  "alpha2Map (indexes [taiwan, poland, taiwan\<lparr>name := js ''Formosa''\<rparr>]) (js ''TW'') =
     Some (taiwan\<lparr>name := js ''Formosa''\<rparr>) \<and>
   taiwan\<lparr>name := js ''Formosa''\<rparr> \<noteq> taiwan \<and>
   searchIndex kelvinCasing [taiwan, poland] ! 1 =
     \<lparr>original = poland, lowerName = js ''poland''\<rparr>"
proof -
  let ?later = "taiwan\<lparr>name := js ''Formosa''\<rparr>"
  have k: "alpha2 ?later = js ''TW''" and d: "?later \<noteq> taiwan"
    by (simp_all add: taiwan_def js_def)
  have s: "[taiwan, poland, ?later] = [taiwan, poland] @ ?later # [] \<and>
           alpha2 ?later \<notin> alpha2 ` set []"
    by simp
  have l: "toLowerCase kelvinCasing (name ([taiwan, poland] ! 1)) = js ''poland''"
    by (simp add: evals)
  from index_construction [of "[taiwan, poland, ?later]" "js ''TW''" kelvinCasing] s k
  have "alpha2Map (indexes [taiwan, poland, ?later]) (js ''TW'') = Some ?later"
    by metis
  moreover from index_construction [of "[taiwan, poland]" "js ''TW''" kelvinCasing] l
  have "searchIndex kelvinCasing [taiwan, poland] ! 1 =
        \<lparr>original = poland, lowerName = js ''poland''\<rparr>"
    by simp
  ultimately show ?thesis using d by simp
qed

text \<open>
  C10. When \<open>getCountryByName\<close> returns a record for a name (which is then not empty),
  \<open>searchByName\<close> on that name returns a non-empty sequence whose first element is that
  record: its match position is 0 and no returned record ranks before it. This needs no
  uniqueness of names, since records tied with it keep their dataset order.
\<close>

theorem exact_match_ranks_first:
  assumes "getCountryByName U cs nm = Some r"
  shows "(\<exists>rest. searchByName U cs nm = r # rest) \<and>
         matchPosition U nm r = 0 \<and>
         (\<forall>c \<in> set (searchByName U cs nm). rankedBefore U nm r c)"
proof -
  let ?q = "toLowerCase U nm"
  let ?P = "\<lambda>country. toLowerCase U (name country) = ?q"
  from assms have nm: "nm \<noteq> []" and found: "find ?P cs = Some r"
    by (auto simp add: getCountryByName_def split: if_splits)
  from found have r_in: "r \<in> set cs" and r_eq: "toLowerCase U (name r) = ?q"
    by (auto simp add: find_Some_iff)
  have pos_r: "matchPosition U nm r = 0"
    by (simp add: matchPosition_def r_eq indexOf_self)
  have len_r: "lowerLength U r = length ?q"
    by (simp add: lowerLength_def r_eq)
  let ?res = "searchByName U cs nm"
  have r_res: "r \<in> set ?res"
    using r_in pos_r by (simp add: searchByName_set [OF nm])
  have minimal: "rankedBefore U nm r c" if c: "c \<in> set ?res" for c
  proof -
    from c obtain i where i: "matchPosition U nm c = int i"
      using searchByName_positions [OF nm] by blast
    show ?thesis
    proof (cases "i = 0")
      case True
      with i have "indexOf (toLowerCase U (name c)) ?q = 0"
        by (simp add: matchPosition_def)
      then have "length ?q \<le> lowerLength U c"
        unfolding lowerLength_def by (rule prefix_length_le [OF indexOf_zero_prefix])
      with True i pos_r len_r show ?thesis by (simp add: rankedBefore_def)
    next
      case False
      with i pos_r show ?thesis by (simp add: rankedBefore_def)
    qed
  qed
  from r_res obtain x rest where res: "?res = x # rest"
    by (cases ?res) auto
  have sorted: "sorted_wrt (rankedBefore U nm) ?res"
    by (rule searchByName_sorted [OF nm])
  have "x = r \<or> r \<in> set rest" using r_res res by auto
  then have x_r: "rankedBefore U nm x r"
  proof
    assume "x = r"
    then show ?thesis by (simp add: rankedBefore_def)
  next
    assume "r \<in> set rest"
    with sorted res show ?thesis by simp
  qed
  have r_x: "rankedBefore U nm r x"
    using minimal [of x] res by simp
  from x_r r_x have tie_x: "matchPosition U nm x = int 0 \<and> lowerLength U x = length ?q"
    using pos_r len_r by (auto simp add: rankedBefore_def)
  let ?tie = "\<lambda>c. matchPosition U nm c = int 0 \<and> lowerLength U c = length ?q"
  have stable: "filter ?tie ?res = filter ?tie cs"
    by (rule searchByName_stable [OF nm])
  have tie_eq: "?P y" if "?tie y" for y
  proof -
    from that have z: "indexOf (toLowerCase U (name y)) ?q = 0"
      and l: "length (toLowerCase U (name y)) = length ?q"
      by (simp_all add: matchPosition_def lowerLength_def)
    show ?thesis
      by (rule prefix_same_length [OF indexOf_zero_prefix [OF z] l])
  qed
  have "\<exists>rest'. filter ?tie cs = r # rest'"
  proof (rule find_first_filter [OF found])
    show "?tie r" using pos_r len_r by simp
  next
    fix y assume "?tie y"
    then show "?P y" by (rule tie_eq)
  qed
  then obtain rest' where "filter ?tie cs = r # rest'" by blast
  moreover have "filter ?tie ?res = x # filter ?tie rest"
    using res tie_x by simp
  ultimately have "x = r" using stable by simp
  with res pos_r minimal show ?thesis by simp
qed

text \<open>Niger after Nigeria in the dataset, and first in the search for its name.\<close>

theorem exact_match_ranks_first_witness:
  "getCountryByName kelvinCasing [taiwan, nigeria, niger] (js ''NIGER'') = Some niger \<and>
   searchByName kelvinCasing [taiwan, nigeria, niger] (js ''NIGER'') = [niger, nigeria] \<and>
   matchPosition kelvinCasing (js ''NIGER'') niger = 0 \<and>
   rankedBefore kelvinCasing (js ''NIGER'') niger nigeria"
proof -
  have g: "getCountryByName kelvinCasing [taiwan, nigeria, niger] (js ''NIGER'') = Some niger"
    by (simp add: evals nigeria_def niger_def getCountryByName_def)
  have s: "searchByName kelvinCasing [taiwan, nigeria, niger] (js ''NIGER'') = [niger, nigeria]"
    by (simp add: evals nigeria_def niger_def searchByName_def searchIndex_def sortBy_def
        compareEntries_def includes_str_def indexOf_def Let_def)
  from exact_match_ranks_first [OF g] g show ?thesis
    unfolding s by simp
qed

end
